theory Spec2Isabelle
  imports Main "HOL-Library.Word" "HOL-Library.Multiset"
begin

unbundle bit_operations_syntax

section \<open>The data of raw\_socket\_listener/listener.go\<close>

text \<open>
  Go's \<open>uint16\<close> and \<open>uint32\<close> are words, so \<open>+\<close> wraps as it does in Go. A
  \<open>time.Time\<close> and a \<open>time.Duration\<close> are integers (nanoseconds); \<open>now.Sub(s)\<close> is
  \<open>now - s\<close> (Go saturates the difference at about 292 years, which is left out).
  A \<open>[]byte\<close> payload is a \<open>string\<close>: a list of 8-bit characters.
\<close>

type_synonym uint16 = "16 word"
type_synonym uint32 = "32 word"
type_synonym time = int

text \<open>
  \<open>TCPPacket\<close> is declared in tcp\_packet.go, which is not among the sources. The record
  has the fields listener.go reads (\<open>packet.Addr.String()\<close> is kept as the string it
  returns), and the capture time that the specification gives every packet.
\<close>

record TCPPacket =
  Addr :: string
  DestPort :: uint16
  Seq :: uint32
  Ack :: uint32
  Data :: string
  captured_at :: time

text \<open>
  \<open>TCPMessage\<close> is declared in tcp\_message.go, which is not among the sources either:
  these are the fields listener.go reads and writes.
\<close>

record TCPMessage =
  ID :: string
  Seq :: uint32
  Ack :: uint32
  ResponseAck :: uint32
  RequestStart :: time
  RequestAck :: uint32
  Start :: time
  IsIncoming :: bool
  packets :: "TCPPacket list"

record request =
  start :: time
  ack :: uint32

text \<open>
  The map \<open>t.messages\<close>. Its only insertion is \<open>t.messages[mID] = message\<close> with
  \<open>message = NewTCPMessage(mID, ...)\<close>, so every key is the \<open>ID\<close> of the message stored
  under it; the map is kept as the list of its messages, and a key is looked up through
  the \<open>ID\<close> field. The order of the list stands for the order in which \<open>range\<close> visits the
  map, which Go leaves open: a statement about every list is a statement about every order.

  The Go map holds pointers. A message is reachable through the map, through the local
  variable \<open>message\<close> of \<open>processTCPPacket\<close> (which is the entry under \<open>mID\<close> until
  that entry is deleted), and through the output channel (after it has left the map and is
  no longer written). The model keeps values: a write through the local variable is copied
  into the list by \<open>storeMsg\<close>, which changes the entry of that \<open>ID\<close> when there is one
  and nothing otherwise.
\<close>

definition lookupMsg :: "TCPMessage list \<Rightarrow> string \<Rightarrow> TCPMessage option" where
  "lookupMsg ms k = find (\<lambda>m. ID m = k) ms"

definition deleteMsg :: "string \<Rightarrow> TCPMessage list \<Rightarrow> TCPMessage list" where
  "deleteMsg k ms = filter (\<lambda>m. ID m \<noteq> k) ms"

definition storeMsg :: "TCPMessage \<Rightarrow> TCPMessage list \<Rightarrow> TCPMessage list" where
  "storeMsg m ms = map (\<lambda>x. if ID x = ID m then m else x) ms"

text \<open>
  The \<open>Listener\<close>. \<open>messagesChan\<close> is the list of the messages sent on the channel, oldest
  first (the channel's bound of 10000, at which a send blocks, is left out). \<open>quit\<close> is
  whether the channel \<open>t.quit\<close> has been closed. \<open>conn\<close> is \<open>None\<close> for a nil
  connection, and otherwise whether the connection is still open.
\<close>

record Listener =
  messages :: "TCPMessage list"
  ackAliases :: "uint32 \<rightharpoonup> uint32"
  seqWithData :: "uint32 \<rightharpoonup> uint32"
  respAliases :: "uint32 \<rightharpoonup> request"
  respWithoutReq :: "uint32 \<rightharpoonup> string"
  messagesChan :: "TCPMessage list"
  addr :: string
  port :: uint16
  messageExpire :: int
  conn :: "bool option"
  quit :: bool

datatype panic = SliceBoundsOutOfRange | IndexOutOfRange | CloseOfClosedChannel

section \<open>dispatchMessage\<close>

definition send :: "Listener \<Rightarrow> TCPMessage \<Rightarrow> Listener" where
  "send t message = t\<lparr>messagesChan := messagesChan t @ [message]\<rparr>"

text \<open>
  \<open>IsFinished\<close> is a method of tcp\_message.go, and the specification leaves its policy
  open: it is the parameter \<open>fin\<close> of everything that calls it.

  The deferred call \<open>defer t.dispatchMessage(resp)\<close> runs when the function returns, which
  for an incoming message is after the send on \<open>t.messagesChan\<close>.
\<close>

function dispatchMessage :: "(TCPMessage \<Rightarrow> bool) \<Rightarrow> Listener \<Rightarrow> TCPMessage \<Rightarrow> Listener" where
  "dispatchMessage fin t message =
    (let t1 = t\<lparr>ackAliases := (ackAliases t)(TCPMessage.Ack message := None),
                messages := deleteMsg (ID message) (messages t)\<rparr>
     in if IsIncoming message then
          (case respWithoutReq t1 (ResponseAck message) of
             None \<Rightarrow> send t1 message
           | Some respID \<Rightarrow>
              (case lookupMsg (messages t1) respID of
                 None \<Rightarrow> send t1 message
               | Some resp \<Rightarrow>
                  if RequestAck resp = 0 then
                    (let resp' = resp\<lparr>RequestAck := TCPMessage.Ack message,
                                      RequestStart := Start message\<rparr>;
                         t2 = t1\<lparr>messages := storeMsg resp' (messages t1)\<rparr>
                     in if fin resp' then dispatchMessage fin (send t2 message) resp'
                        else send t2 message)
                  else send t1 message))
        else
          (let t2 = t1\<lparr>respAliases := (respAliases t1)(TCPMessage.Ack message := None),
                       respWithoutReq := (respWithoutReq t1)(TCPMessage.Ack message := None)\<rparr>
           in if RequestAck message = 0 then t2 else send t2 message))"
  by pat_completeness auto
termination
proof (relation "measure (\<lambda>(fin, t, message). length (deleteMsg (ID message) (messages t)))")
  show "wf (measure (\<lambda>(fin, t, message). length (deleteMsg (ID message) (messages t))))"
    by simp
next
  fix fin :: "TCPMessage \<Rightarrow> bool" and t :: Listener and message :: TCPMessage
    and t1 respID resp resp' t2
  assume t1: "t1 = t\<lparr>ackAliases := (ackAliases t)(TCPMessage.Ack message := None),
                messages := deleteMsg (ID message) (messages t)\<rparr>"
    and found: "lookupMsg (messages t1) respID = Some resp"
    and resp': "resp' = resp\<lparr>RequestAck := TCPMessage.Ack message, RequestStart := Start message\<rparr>"
    and t2: "t2 = t1\<lparr>messages := storeMsg resp' (messages t1)\<rparr>"
  let ?ms = "deleteMsg (ID message) (messages t)"
  from found t1 have mem: "resp \<in> set ?ms"
    by (auto simp: lookupMsg_def find_Some_iff)
  have "length (filter (\<lambda>m. ID m \<noteq> ID resp) ?ms) < length ?ms"
    using mem by (intro length_filter_less [of resp]) auto
  moreover have "filter (\<lambda>m. ID m \<noteq> ID resp) (storeMsg resp' xs)
      = filter (\<lambda>m. ID m \<noteq> ID resp) xs" for xs
    by (induction xs) (auto simp: storeMsg_def resp')
  ultimately show "((fin, send t2 message, resp'), (fin, t, message))
      \<in> measure (\<lambda>(fin, t, message). length (deleteMsg (ID message) (messages t)))"
    by (simp add: t1 t2 resp' send_def deleteMsg_def)
qed

declare dispatchMessage.simps [simp del]

text \<open>
  One call of \<open>dispatchMessage\<close> up to its return, for the proofs: the listener it
  leaves, and the message of the deferred call when there is one. \<open>dispatchMessage\<close> is
  this step, followed by the dispatch of the deferred message (lemma
  \<open>dispatchMessage_step\<close>).
\<close>

definition dispatchStep :: "(TCPMessage \<Rightarrow> bool) \<Rightarrow> Listener \<Rightarrow> TCPMessage
    \<Rightarrow> Listener \<times> TCPMessage option" where
  "dispatchStep fin t message =
    (let t1 = t\<lparr>ackAliases := (ackAliases t)(TCPMessage.Ack message := None),
                messages := deleteMsg (ID message) (messages t)\<rparr>
     in if IsIncoming message then
          (case respWithoutReq t1 (ResponseAck message) of
             None \<Rightarrow> (send t1 message, None)
           | Some respID \<Rightarrow>
              (case lookupMsg (messages t1) respID of
                 None \<Rightarrow> (send t1 message, None)
               | Some resp \<Rightarrow>
                  if RequestAck resp = 0 then
                    (let resp' = resp\<lparr>RequestAck := TCPMessage.Ack message,
                                      RequestStart := Start message\<rparr>;
                         t2 = t1\<lparr>messages := storeMsg resp' (messages t1)\<rparr>
                     in (send t2 message, if fin resp' then Some resp' else None))
                  else (send t1 message, None)))
        else
          (let t2 = t1\<lparr>respAliases := (respAliases t1)(TCPMessage.Ack message := None),
                       respWithoutReq := (respWithoutReq t1)(TCPMessage.Ack message := None)\<rparr>
           in (if RequestAck message = 0 then t2 else send t2 message, None)))"



section \<open>The helpers of tcp\_message.go\<close>

text \<open>
  Modelled from the spec: \<open>NewTCPMessage\<close>, which is in tcp\_message.go and not among the
  sources. The specification has the new message carry the given id, \<open>seq\<close>, \<open>ack\<close>
  and direction, and start at the capture time of its first packet; the other fields have
  Go's zero values. The call in listener.go passes the id, \<open>packet.Seq\<close>, \<open>packet.Ack\<close>
  and \<open>isIncoming\<close>; the start time is a fifth argument here.
\<close>

definition NewTCPMessage :: "string \<Rightarrow> uint32 \<Rightarrow> uint32 \<Rightarrow> bool \<Rightarrow> time \<Rightarrow> TCPMessage" where
  "NewTCPMessage mID seq ackn isIncoming started =
     \<lparr>ID = mID, Seq = seq, Ack = ackn, ResponseAck = 0, RequestStart = 0, RequestAck = 0,
      Start = started, IsIncoming = isIncoming, packets = []\<rparr>"

text \<open>
  Modelled from the spec: \<open>AddPacket\<close>, which is in tcp\_message.go and not among the
  sources. The specification says: add the packet to the packets of the message, which are an
  ordered, append-only list.
\<close>

definition AddPacket :: "TCPMessage \<Rightarrow> TCPPacket \<Rightarrow> TCPMessage" where
  "AddPacket message packet = message\<lparr>packets := packets message @ [packet]\<rparr>"

text \<open>
  Modelled from the spec: \<open>BodySize\<close>, which is in tcp\_message.go and not among the
  sources. The specification says: the sum of the payload lengths of the packets already in
  the message.
\<close>

definition BodySize :: "TCPMessage \<Rightarrow> nat" where
  "BodySize message = sum_list (map (\<lambda>p. length (Data p)) (packets message))"

section \<open>processTCPPacket\<close>

text \<open>
  \<open>strconv.Itoa\<close> of a number that is not negative (\<open>int(packet.DestPort)\<close> and
  \<open>int(packet.Ack)\<close>, with Go's \<open>int\<close> of 64 bits).
\<close>

fun Itoa :: "nat \<Rightarrow> string" where
  "Itoa n = (if n < 10 then [''0123456789'' ! n]
             else Itoa (n div 10) @ [''0123456789'' ! (n mod 10)])"

declare Itoa.simps [simp del]

definition messageID :: "TCPPacket \<Rightarrow> string" where
  "messageID packet =
     Addr packet @ Itoa (unat (DestPort packet)) @ Itoa (unat (TCPPacket.Ack packet))"

definition bExpect100ContinueCheck :: string where
  "bExpect100ContinueCheck = ''Expect: 100-continue''"

definition bPOST :: string where
  "bPOST = ''POST''"

text \<open>
  A slice expression \<open>d[lo:hi]\<close> on a payload whose capacity is its length; the bounds are
  integers, as Go's \<open>int\<close>, so that \<open>len(d) - 24\<close> can be negative and the expression
  panic.
\<close>

definition slice :: "'a list \<Rightarrow> int \<Rightarrow> int \<Rightarrow> panic + 'a list" where
  "slice d lo hi =
     (if 0 \<le> lo \<and> lo \<le> hi \<and> hi \<le> int (length d)
      then Inr (take (nat hi - nat lo) (drop (nat lo) d))
      else Inl SliceBoundsOutOfRange)"

text \<open>Lines 237 to 245: the rewrite of \<open>packet.Ack\<close>.\<close>

definition rewriteAck :: "Listener \<Rightarrow> TCPPacket \<Rightarrow> Listener \<times> TCPPacket" where
  "rewriteAck t packet =
     (let (t1, packet1) =
            (case seqWithData t (TCPPacket.Seq packet) of
               Some parentAck \<Rightarrow>
                 (t\<lparr>ackAliases := (ackAliases t)(TCPPacket.Ack packet \<mapsto> parentAck),
                    seqWithData := (seqWithData t)(TCPPacket.Seq packet := None)\<rparr>,
                  packet\<lparr>TCPPacket.Ack := parentAck\<rparr>)
             | None \<Rightarrow> (t, packet))
      in case ackAliases t1 (TCPPacket.Ack packet1) of
           Some alias \<Rightarrow> (t1, packet1\<lparr>TCPPacket.Ack := alias\<rparr>)
         | None \<Rightarrow> (t1, packet1))"

text \<open>
  Lines 247 to 269: the message of the packet, found under \<open>mID\<close> or created. A new
  message is put at the end of the list.
\<close>

definition findMessage :: "Listener \<Rightarrow> bool \<Rightarrow> TCPPacket \<Rightarrow> Listener \<times> TCPMessage" where
  "findMessage t isIncoming packet =
     (let responseRequest = (if \<not> isIncoming then respAliases t (TCPPacket.Ack packet) else None);
          mID = messageID packet
      in case lookupMsg (messages t) mID of
           Some message \<Rightarrow> (t, message)
         | None \<Rightarrow>
            (let message = NewTCPMessage mID (TCPPacket.Seq packet) (TCPPacket.Ack packet)
                             isIncoming (captured_at packet)
             in if \<not> isIncoming then
                  (case responseRequest of
                     Some r \<Rightarrow>
                       (let message' = message\<lparr>RequestStart := start r, RequestAck := ack r\<rparr>
                        in (t\<lparr>messages := messages t @ [message']\<rparr>, message'))
                   | None \<Rightarrow>
                       (t\<lparr>messages := messages t @ [message],
                          respWithoutReq := (respWithoutReq t)(TCPPacket.Ack packet \<mapsto> mID)\<rparr>,
                        message))
                else (t\<lparr>messages := messages t @ [message]\<rparr>, message)))"

text \<open>
  Lines 279 to 289: the loop over \<open>t.messages\<close>. \<open>ks\<close> are the keys in the order of the
  visit; a key whose entry is gone is not visited. \<open>message\<close> is the local variable of
  \<open>processTCPPacket\<close>.
\<close>

fun mergeLoop :: "uint32 \<Rightarrow> uint32 \<Rightarrow> string list \<Rightarrow> Listener \<Rightarrow> TCPMessage
    \<Rightarrow> Listener \<times> TCPMessage" where
  "mergeLoop seq packetAck [] t message = (t, message)"
| "mergeLoop seq packetAck (k # ks) t message =
     (case lookupMsg (messages t) k of
        None \<Rightarrow> mergeLoop seq packetAck ks t message
      | Some m \<Rightarrow>
          if TCPMessage.Seq m = seq then
            (let t1 = t\<lparr>ackAliases := (ackAliases t)(TCPMessage.Ack m \<mapsto> packetAck)\<rparr>;
                 message' = foldl AddPacket message (packets m);
                 t2 = t1\<lparr>messages := deleteMsg k (storeMsg message' (messages t1))\<rparr>
             in mergeLoop seq packetAck ks t2 message')
          else mergeLoop seq packetAck ks t message)"

text \<open>
  Lines 271 to 294: the handling of \<open>Expect: 100-continue\<close>. A panic comes with the
  listener and the packet as they are when it is raised.
\<close>

definition expect100 :: "Listener \<Rightarrow> TCPMessage \<Rightarrow> TCPPacket
    \<Rightarrow> (panic \<times> Listener \<times> TCPPacket) + (Listener \<times> TCPMessage \<times> TCPPacket)" where
  "expect100 t message packet =
     (let n = int (length (Data packet))
      in if n > 4 \<and> slice (Data packet) 0 4 = Inr bPOST then
           (case slice (Data packet) (n - 24) (n - 4) of
              Inl e \<Rightarrow> Inl (e, t, packet)
            | Inr tail \<Rightarrow>
                if tail = bExpect100ContinueCheck then
                  (let seq = TCPPacket.Seq packet + of_nat (length (Data packet));
                       t1 = t\<lparr>seqWithData := (seqWithData t)(seq \<mapsto> TCPPacket.Ack packet)\<rparr>;
                       (t2, message') =
                          mergeLoop seq (TCPPacket.Ack packet) (map ID (messages t1)) t1 message;
                       packet' = packet\<lparr>Data :=
                          take (nat (n - 24)) (Data packet) @ drop (nat (n - 2)) (Data packet)\<rparr>
                   in Inr (t2, message', packet'))
                else Inr (t, message, packet))
         else Inr (t, message, packet))"

text \<open>Lines 296 to 306: the response acknowledgement of an incoming message.\<close>

definition trackResponse :: "Listener \<Rightarrow> bool \<Rightarrow> TCPMessage \<Rightarrow> TCPPacket
    \<Rightarrow> Listener \<times> TCPMessage" where
  "trackResponse t isIncoming message packet =
     (if isIncoming then
        (let t1 = (if length (packets message) > 0
                   then t\<lparr>respAliases := (respAliases t)(ResponseAck message := None)\<rparr>
                   else t);
             responseAck = TCPPacket.Seq packet + of_nat (BodySize message)
                             + of_nat (length (Data packet));
             t2 = t1\<lparr>respAliases := (respAliases t1)
                       (responseAck \<mapsto> \<lparr>start = Start message, ack = TCPMessage.Ack message\<rparr>)\<rparr>;
             message' = message\<lparr>ResponseAck := responseAck\<rparr>
         in (t2\<lparr>messages := storeMsg message' (messages t2)\<rparr>, message'))
      else (t, message))"

text \<open>
  Lines 235 to 309: everything \<open>processTCPPacket\<close> does before it asks whether the
  message is finished. The result is the listener, the message the packet went into and the
  packet as the function leaves it (Go changes \<open>packet.Ack\<close> and \<open>packet.Data\<close> in
  place).
\<close>

definition assemble :: "Listener \<Rightarrow> TCPPacket
    \<Rightarrow> (panic \<times> Listener \<times> TCPPacket) + (Listener \<times> TCPMessage \<times> TCPPacket)" where
  "assemble t packet0 =
     (let isIncoming = (DestPort packet0 = port t);
          (t1, packet) = rewriteAck t packet0;
          (t2, message) = findMessage t1 isIncoming packet
      in case expect100 t2 message packet of
           Inl e \<Rightarrow> Inl e
         | Inr (t3, message3, packet3) \<Rightarrow>
             (let (t4, message4) = trackResponse t3 isIncoming message3 packet3;
                  message5 = AddPacket message4 packet3
              in Inr (t4\<lparr>messages := storeMsg message5 (messages t4)\<rparr>, message5, packet3)))"

text \<open>
  The local variable \<open>message\<close> after lines 255 to 269: the message found under \<open>mID\<close>
  or created, before any packet is added to it.
\<close>

definition currentMessage :: "Listener \<Rightarrow> TCPPacket \<Rightarrow> TCPMessage" where
  "currentMessage t packet =
     (let (t1, packet1) = rewriteAck t packet
      in snd (findMessage t1 (DestPort packet = port t) packet1))"

text \<open>
  \<open>processTCPPacket\<close>: the deferred \<open>recover\<close> ends a panic, and the listener stays as
  the panic left it. The result says which panic was recovered, if any.
\<close>

definition processTCPPacket :: "(TCPMessage \<Rightarrow> bool) \<Rightarrow> Listener \<Rightarrow> TCPPacket
    \<Rightarrow> panic option \<times> Listener \<times> TCPPacket" where
  "processTCPPacket fin t packet =
     (case assemble t packet of
        Inl (e, t', packet') \<Rightarrow> (Some e, t', packet')
      | Inr (t', message, packet') \<Rightarrow>
          (None, (if fin message then dispatchMessage fin t' message else t'), packet'))"

section \<open>The expiry of messages in listen\<close>

text \<open>
  Lines 117 to 124: the loop over \<open>t.messages\<close> at a tick; \<open>ks\<close> are the keys in the
  order of the visit, and a key whose entry a dispatch has deleted is not visited.
\<close>

fun gcLoop :: "(TCPMessage \<Rightarrow> bool) \<Rightarrow> time \<Rightarrow> string list \<Rightarrow> Listener \<Rightarrow> Listener" where
  "gcLoop fin now [] t = t"
| "gcLoop fin now (k # ks) t =
     (case lookupMsg (messages t) k of
        None \<Rightarrow> gcLoop fin now ks t
      | Some message \<Rightarrow>
          if now - Start message \<ge> messageExpire t
          then gcLoop fin now ks (dispatchMessage fin t message)
          else gcLoop fin now ks t)"

definition gcTick :: "(TCPMessage \<Rightarrow> bool) \<Rightarrow> time \<Rightarrow> Listener \<Rightarrow> Listener" where
  "gcTick fin now t = gcLoop fin now (map ID (messages t)) t"

text \<open>
  The loop of \<open>listen\<close>: each turn of the \<open>select\<close> takes a packet from
  \<open>t.packetsChan\<close> or a tick of \<open>gcTicker\<close>, at which \<open>now\<close> is read from the clock
  (the case of \<open>t.quit\<close> ends the loop).
\<close>

datatype event = Packet TCPPacket | Tick time

definition listenStep :: "(TCPMessage \<Rightarrow> bool) \<Rightarrow> event \<Rightarrow> Listener \<Rightarrow> Listener" where
  "listenStep fin ev t =
     (case ev of
        Packet packet \<Rightarrow> fst (snd (processTCPPacket fin t packet))
      | Tick now \<Rightarrow> gcTick fin now t)"

text \<open>
  The loop in time, as the claim about expiry takes it: \<open>listening fin lag l T now t\<close>
  says that the loop, started on the listener \<open>l\<close>, has come to the listener \<open>t\<close> at the
  time \<open>now\<close>, and that its last tick, or else its start, was at the time \<open>T\<close>. Packets
  and ticks come in any order. A tick comes at most \<open>messageExpire / 2\<close>, the interval of
  \<open>time.Tick\<close>, after the tick before it, and no turn of the loop is later than that.
  \<open>time.Tick\<close> gives no ticks for an interval that is not positive, so \<open>messageExpire\<close>
  is at least 2. Before each turn the messages may be put in any other order, since every
  \<open>range\<close> over the map chooses its own. A new message starts at the capture time of its
  packet, and a packet waits in \<open>t.packetsChan\<close> before it is ingested: \<open>lag\<close> is the
  longest time between the capture of a packet and its ingest.
\<close>

inductive listening :: "(TCPMessage \<Rightarrow> bool) \<Rightarrow> time \<Rightarrow> Listener \<Rightarrow> time \<Rightarrow> time
    \<Rightarrow> Listener \<Rightarrow> bool"
  for fin :: "TCPMessage \<Rightarrow> bool" and lag :: time and l :: Listener
where
  start: "messages l = [] \<Longrightarrow> 2 \<le> messageExpire l \<Longrightarrow> listening fin lag l T T l"
| packet: "listening fin lag l T now t \<Longrightarrow> now \<le> now' \<Longrightarrow>
     now' \<le> T + messageExpire l div 2 \<Longrightarrow>
     now' - captured_at packet \<le> lag \<Longrightarrow> mset ms = mset (messages t) \<Longrightarrow>
     listening fin lag l T now' (listenStep fin (Packet packet) (t\<lparr>messages := ms\<rparr>))"
| tick: "listening fin lag l T now t \<Longrightarrow> now \<le> now' \<Longrightarrow>
     now' \<le> T + messageExpire l div 2 \<Longrightarrow> mset ms = mset (messages t) \<Longrightarrow>
     listening fin lag l now' now' (listenStep fin (Tick now') (t\<lparr>messages := ms\<rparr>))"

section \<open>NewListener and Close\<close>

text \<open>
  \<open>strconv.Atoi\<close> of the Go library, for a 64-bit \<open>int\<close>: an optional sign, then one or
  more decimal digits. A syntax error gives 0; a number out of range gives the nearest
  \<open>int\<close>; both give an error.
\<close>

datatype numError = ErrSyntax | ErrRange

fun parseDigits :: "string \<Rightarrow> nat \<Rightarrow> nat option" where
  "parseDigits [] n = Some n"
| "parseDigits (c # cs) n =
     (if 48 \<le> (of_char c :: nat) \<and> (of_char c :: nat) \<le> 57
      then parseDigits cs (n * 10 + (of_char c - 48))
      else None)"

definition Atoi :: "string \<Rightarrow> int \<times> numError option" where
  "Atoi s =
     (let neg = (s \<noteq> [] \<and> hd s = CHR ''-'');
          ds = (if s \<noteq> [] \<and> (hd s = CHR ''+'' \<or> hd s = CHR ''-'') then tl s else s)
      in if ds = [] then (0, Some ErrSyntax)
         else case parseDigits ds 0 of
                None \<Rightarrow> (0, Some ErrSyntax)
              | Some un \<Rightarrow>
                  if \<not> neg \<and> un \<ge> 2 ^ 63 then (2 ^ 63 - 1, Some ErrRange)
                  else if neg \<and> un > 2 ^ 63 then (- (2 ^ 63), Some ErrRange)
                  else (if neg then - int un else int un, None))"

datatype goroutine = Listen | ReadRAWSocket

text \<open>
  \<open>NewListener\<close> returns the listener and no error; the second component is the list
  of the goroutines it starts.
\<close>

definition NewListener :: "string \<Rightarrow> string \<Rightarrow> int \<Rightarrow> Listener \<times> goroutine list" where
  "NewListener a portStr expire =
     (let l = \<lparr>messages = [], ackAliases = Map.empty, seqWithData = Map.empty,
               respAliases = Map.empty, respWithoutReq = Map.empty, messagesChan = [],
               addr = a, port = word_of_int (fst (Atoi portStr)),
               messageExpire = (if expire = 0 then 2000 * 1000000 else expire),
               conn = None, quit = False\<rparr>
      in (l, if port l \<noteq> 0 then [Listen, ReadRAWSocket] else [Listen]))"

text \<open>
  \<open>Close\<close>: Go's \<open>close\<close> of a channel that is closed already panics; closing a
  connection a second time returns an error, which \<open>Close\<close> ignores.
\<close>

definition Close :: "Listener \<Rightarrow> panic + Listener" where
  "Close t =
     (if quit t then Inl CloseOfClosedChannel
      else Inr (case conn t of
                  None \<Rightarrow> t\<lparr>quit := True\<rparr>
                | Some c \<Rightarrow> t\<lparr>quit := True, conn := Some False\<rparr>))"

section \<open>isValidPacket and readRAWSocket\<close>

text \<open>
  A Go slice of bytes with its capacity: \<open>array\<close> holds the bytes from the start of the
  slice to the end of its capacity, of which the first \<open>len\<close> are the slice. Go checks the
  upper bound of a slice expression \<open>b[lo:hi]\<close> on a slice against the capacity, and an
  index \<open>b[i]\<close> against the length.
\<close>

record bytes =
  array :: "8 word list"
  len :: nat

definition reslice :: "bytes \<Rightarrow> nat \<Rightarrow> nat \<Rightarrow> panic + bytes" where
  "reslice b lo hi =
     (if lo \<le> hi \<and> hi \<le> length (array b)
      then Inr \<lparr>array = drop lo (array b), len = hi - lo\<rparr>
      else Inl SliceBoundsOutOfRange)"

definition index :: "bytes \<Rightarrow> nat \<Rightarrow> panic + 8 word" where
  "index b i = (if i < len b then Inr (array b ! i) else Inl IndexOutOfRange)"

text \<open>\<open>binary.BigEndian.Uint16\<close>: \<open>_ = b[1]\<close>, then \<open>uint16(b[1]) | uint16(b[0])<<8\<close>.\<close>

definition Uint16 :: "bytes \<Rightarrow> panic + uint16" where
  "Uint16 b =
     (case index b 1 of
        Inl e \<Rightarrow> Inl e
      | Inr b1 \<Rightarrow>
          (case index b 0 of
             Inl e \<Rightarrow> Inl e
           | Inr b0 \<Rightarrow> Inr (ucast b1 OR push_bit 8 (ucast b0))))"

definition isValidPacket :: "Listener \<Rightarrow> bytes \<Rightarrow> panic + bool" where
  "isValidPacket t buf =
     (case reslice buf 2 4 of
        Inl e \<Rightarrow> Inl e
      | Inr d \<Rightarrow>
     (case Uint16 d of
        Inl e \<Rightarrow> Inl e
      | Inr destPort \<Rightarrow>
     (case reslice buf 0 2 of
        Inl e \<Rightarrow> Inl e
      | Inr s \<Rightarrow>
     (case Uint16 s of
        Inl e \<Rightarrow> Inl e
      | Inr srcPort \<Rightarrow>
          if destPort = port t \<or> srcPort = port t then
            (case index buf 12 of
               Inl e \<Rightarrow> Inl e
             | Inr b12 \<Rightarrow>
                 (let dataOffset = drop_bit 4 (b12 AND 0xF0)
                  in if int (len buf) > uint (dataOffset * 4) then Inr True else Inr False))
          else Inr False))))"

text \<open>
  One turn of the loop of \<open>readRAWSocket\<close>: \<open>buf\<close> is the buffer after
  \<open>ReadFrom\<close>, \<open>n\<close> the length it returned and \<open>err\<close> its error, told apart by
  whether the text of the error ends in \<open>closed network connection\<close>. The function has
  no \<open>recover\<close>: a panic of \<open>isValidPacket\<close> ends the program.
\<close>

datatype readError = ClosedNetworkConnection | OtherError

datatype readStep = Return | Continue | Forward "8 word list" | Crash panic

definition readFrame :: "Listener \<Rightarrow> 8 word list \<Rightarrow> nat \<Rightarrow> readError option \<Rightarrow> readStep" where
  "readFrame t buf n err =
     (case err of
        Some ClosedNetworkConnection \<Rightarrow> Return
      | Some OtherError \<Rightarrow> Continue
      | None \<Rightarrow>
          if n > 0 then
            (case reslice \<lparr>array = buf, len = length buf\<rparr> 0 n of
               Inl e \<Rightarrow> Crash e
             | Inr frame \<Rightarrow>
                 (case isValidPacket t frame of
                    Inl e \<Rightarrow> Crash e
                  | Inr True \<Rightarrow> Forward (take n buf)
                  | Inr False \<Rightarrow> Continue))
          else Continue)"

section \<open>Concrete inputs\<close>


text \<open>
  The claim about \<open>Expect: 100-continue\<close> speaks of a payload that begins with the bytes
  \<open>POST\<close> and whose bytes at the positions from \<open>len - 24\<close> up to \<open>len - 4\<close> are
  \<open>Expect: 100-continue\<close>.
\<close>

definition expectsContinue :: "string \<Rightarrow> bool" where
  "expectsContinue d =
     (24 \<le> length d \<and> take 4 d = ''POST'' \<and>
      take 20 (drop (length d - 24) d) = ''Expect: 100-continue'')"

text \<open>
  The claim about expiry speaks of a message that has been dispatched. \<open>backfilled x y\<close>:
  \<open>y\<close> is the message \<open>x\<close>, but for \<open>RequestAck\<close> and \<open>RequestStart\<close> when these were
  not yet set in \<open>x\<close> (a dispatch of its request sets them). \<open>dispatched c x t\<close>: in the
  listener \<open>t\<close> the message \<open>x\<close> has gone through \<open>dispatchMessage\<close> since the output channel
  held \<open>c\<close> messages: its key is not in \<open>messages\<close> and its \<open>Ack\<close> not in
  \<open>ackAliases\<close>; an incoming message has been sent on the channel; the \<open>Ack\<close> of an outgoing
  message is not in \<open>respAliases\<close> and \<open>respWithoutReq\<close>, and the message has been sent if
  its \<open>RequestAck\<close> was not 0.
\<close>

definition backfilled :: "TCPMessage \<Rightarrow> TCPMessage \<Rightarrow> bool" where
  "backfilled x y \<longleftrightarrow>
     ID y = ID x \<and> TCPMessage.Seq y = TCPMessage.Seq x \<and> TCPMessage.Ack y = TCPMessage.Ack x \<and>
     ResponseAck y = ResponseAck x \<and> Start y = Start x \<and> IsIncoming y = IsIncoming x \<and>
     packets y = packets x \<and>
     (RequestAck x \<noteq> 0 \<longrightarrow> RequestAck y = RequestAck x \<and> RequestStart y = RequestStart x)"


text \<open>A listener on port 80, and an outgoing message that no request was found for.\<close>

definition listener80 :: Listener where
  "listener80 = fst (NewListener ''1.2.3.4'' ''80'' 0)"

definition orphan :: TCPMessage where
  "orphan = NewTCPMessage ''1.2.3.450009999'' 200 9999 False 0"

text \<open>
  The packets of a request and of its response: the request is 18 bytes from sequence
  number 100, so the response acknowledges 118.
\<close>

definition CRLF :: string where
  "CRLF = [CHR 0x0D, CHR 0x0A]"

definition requestPacket :: TCPPacket where
  "requestPacket = \<lparr>Addr = ''1.2.3.4'', DestPort = 80, Seq = 100, Ack = 200,
     Data = ''GET / HTTP/1.1'' @ CRLF @ CRLF, captured_at = 20\<rparr>"

definition responsePacket :: TCPPacket where
  "responsePacket = \<lparr>Addr = ''1.2.3.4'', DestPort = 5000, Seq = 200, Ack = 118,
     Data = ''HTTP/1.1 200 OK'' @ CRLF @ CRLF, captured_at = 10\<rparr>"

text \<open>Two policies for \<open>IsFinished\<close>: never, and a message of one packet.\<close>

definition never :: "TCPMessage \<Rightarrow> bool" where
  "never m = False"

definition single :: "TCPMessage \<Rightarrow> bool" where
  "single m = (length (packets m) = 1)"

text \<open>
  The listener in which the response came first and waits for its request, and the request
  has been assembled but not dispatched.
\<close>

definition requestMessage :: TCPMessage where
  "requestMessage = \<lparr>ID = ''1.2.3.480200'', Seq = 100, Ack = 200, ResponseAck = 118,
     RequestStart = 0, RequestAck = 0, Start = 20, IsIncoming = True,
     packets = [requestPacket]\<rparr>"

definition responseMessage :: TCPMessage where
  "responseMessage = \<lparr>ID = ''1.2.3.45000118'', Seq = 200, Ack = 118, ResponseAck = 0,
     RequestStart = 0, RequestAck = 0, Start = 10, IsIncoming = False,
     packets = [responsePacket]\<rparr>"

definition waiting :: Listener where
  "waiting = listener80\<lparr>messages := [responseMessage, requestMessage],
     respAliases := [118 \<mapsto> \<lparr>start = 20, ack = 200\<rparr>],
     respWithoutReq := [118 \<mapsto> ''1.2.3.45000118'']\<rparr>"

text \<open>A packet that starts with \<open>POST\<close> and is shorter than 24 bytes.\<close>

definition shortPost :: TCPPacket where
  "shortPost = \<lparr>Addr = ''1.2.3.4'', DestPort = 80, Seq = 300, Ack = 400,
     Data = ''POST /'', captured_at = 30\<rparr>"

text \<open>
  The two packets of a request sent with \<open>Expect: 100-continue\<close>: the header of 41
  bytes from sequence number 1000, and the body from 1041 under another acknowledgement.
\<close>

definition headerPacket :: TCPPacket where
  "headerPacket = \<lparr>Addr = ''1.2.3.4'', DestPort = 80, Seq = 1000, Ack = 500,
     Data = ''POST / HTTP/1.1'' @ CRLF @ ''Expect: 100-continue'' @ CRLF @ CRLF,
     captured_at = 40\<rparr>"

definition bodyPacket :: TCPPacket where
  "bodyPacket = \<lparr>Addr = ''1.2.3.4'', DestPort = 80, Seq = 1041, Ack = 501,
     Data = ''hello'', captured_at = 50\<rparr>"

text \<open>
  A second packet of the request, which arrives while the request waits in \<open>messages\<close>,
  and the message and the listener it leaves.
\<close>

definition secondPacket :: TCPPacket where
  "secondPacket = \<lparr>Addr = ''1.2.3.4'', DestPort = 80, Seq = 118, Ack = 200,
     Data = ''more'', captured_at = 25\<rparr>"

definition secondMessage :: TCPMessage where
  "secondMessage = requestMessage\<lparr>ResponseAck := 140,
     packets := [requestPacket, secondPacket]\<rparr>"

definition afterSecond :: Listener where
  "afterSecond = waiting\<lparr>messages := [responseMessage, secondMessage],
     respAliases := [140 \<mapsto> \<lparr>start = 20, ack = 200\<rparr>]\<rparr>"

text \<open>
  The listener in which the body of the \<open>Expect: 100-continue\<close> request came first and
  is a message of its own.
\<close>

definition bodyMessage :: TCPMessage where
  "bodyMessage = \<lparr>ID = ''1.2.3.480501'', Seq = 1041, Ack = 501, ResponseAck = 1046,
     RequestStart = 0, RequestAck = 0, Start = 50, IsIncoming = True,
     packets = [bodyPacket]\<rparr>"

definition bodyFirst :: Listener where
  "bodyFirst = listener80\<lparr>messages := [bodyMessage],
     respAliases := [1046 \<mapsto> \<lparr>start = 50, ack = 501\<rparr>]\<rparr>"

section \<open>Unfolding on concrete inputs, and the map of messages\<close>

lemmas ingest_defs = processTCPPacket_def assemble_def rewriteAck_def findMessage_def
  expect100_def slice_def trackResponse_def AddPacket_def BodySize_def messageID_def Itoa.simps
  lookupMsg_def storeMsg_def deleteMsg_def NewTCPMessage_def bPOST_def
  bExpect100ContinueCheck_def Let_def

lemmas example_defs = listener80_def NewListener_def Atoi_def requestPacket_def
  responsePacket_def CRLF_def requestMessage_def responseMessage_def waiting_def never_def
  single_def shortPost_def orphan_def headerPacket_def bodyPacket_def
  secondPacket_def secondMessage_def afterSecond_def bodyMessage_def bodyFirst_def

lemma lookupMsg_Some_ID: "lookupMsg ms k = Some m \<Longrightarrow> ID m = k \<and> m \<in> set ms"
  by (auto simp: lookupMsg_def find_Some_iff)

lemma lookupMsg_storeMsg:
  "lookupMsg (storeMsg m' ms) k =
     (case lookupMsg ms k of None \<Rightarrow> None | Some m \<Rightarrow> Some (if k = ID m' then m' else m))"
  by (induction ms) (auto simp: lookupMsg_def storeMsg_def)

lemma lookupMsg_deleteMsg:
  "lookupMsg (deleteMsg k' ms) k = (if k = k' then None else lookupMsg ms k)"
  by (induction ms) (auto simp: lookupMsg_def deleteMsg_def)


lemma dispatch_outgoing_eq:
  "\<not> IsIncoming message \<Longrightarrow>
   dispatchMessage fin t message =
     t\<lparr>ackAliases := (ackAliases t)(TCPMessage.Ack message := None),
       messages := deleteMsg (ID message) (messages t),
       respAliases := (respAliases t)(TCPMessage.Ack message := None),
       respWithoutReq := (respWithoutReq t)(TCPMessage.Ack message := None),
       messagesChan := (if RequestAck message = 0 then messagesChan t
                        else messagesChan t @ [message])\<rparr>"
  by (simp add: dispatchMessage.simps [of fin t message] send_def)

lemma rewriteAck_keeps:
  "rewriteAck t p = (t1, p1) \<Longrightarrow>
   Data p1 = Data p \<and> TCPPacket.Seq p1 = TCPPacket.Seq p \<and> DestPort p1 = DestPort p \<and>
   Addr p1 = Addr p \<and> captured_at p1 = captured_at p \<and>
   messages t1 = messages t \<and> respAliases t1 = respAliases t \<and>
   respWithoutReq t1 = respWithoutReq t \<and> messagesChan t1 = messagesChan t \<and>
   port t1 = port t \<and> messageExpire t1 = messageExpire t"
  by (auto simp: rewriteAck_def split: option.splits)

lemma findMessage_keeps:
  "findMessage t inc p = (t2, message) \<Longrightarrow>
   respAliases t2 = respAliases t \<and> messagesChan t2 = messagesChan t \<and>
   ackAliases t2 = ackAliases t \<and> seqWithData t2 = seqWithData t \<and>
   port t2 = port t \<and> messageExpire t2 = messageExpire t \<and>
   (messages t2 = messages t \<or> messages t2 = messages t @ [message] \<and> packets message = [])"
  by (auto simp: findMessage_def NewTCPMessage_def Let_def split: option.splits if_splits)

lemma expect100_short:
  assumes "4 < length (Data p)" and "length (Data p) < 24" and "take 4 (Data p) = ''POST''"
  shows "expect100 t m p = Inl (SliceBoundsOutOfRange, t, p)"
  using assms by (simp add: expect100_def slice_def bPOST_def)

lemma dispatchMessage_step:
  "dispatchMessage fin t message =
     (case dispatchStep fin t message of
        (t', None) \<Rightarrow> t'
      | (t', Some resp) \<Rightarrow> dispatchMessage fin t' resp)"
  by (simp add: dispatchMessage.simps [of fin t message] dispatchStep_def Let_def
      split: option.splits)

lemma filter_storeMsg:
  "ID m = k \<Longrightarrow> filter (\<lambda>x. ID x \<noteq> k) (storeMsg m ms) = filter (\<lambda>x. ID x \<noteq> k) ms"
  by (induction ms) (auto simp: storeMsg_def)

lemma dispatchStep_deferred:
  assumes "dispatchStep fin t message = (t', Some resp)"
  shows "length (deleteMsg (ID resp) (messages t')) < length (deleteMsg (ID message) (messages t))"
proof -
  let ?ms = "deleteMsg (ID message) (messages t)"
  from assms obtain r where r: "r \<in> set ?ms" "ID r = ID resp"
    and t': "messages t' = storeMsg resp ?ms"
    by (auto simp: dispatchStep_def Let_def send_def split: if_splits option.splits
        dest!: lookupMsg_Some_ID)
  have "length (filter (\<lambda>x. ID x \<noteq> ID resp) ?ms) < length ?ms"
    using r by (intro length_filter_less [of r]) auto
  then show ?thesis
    by (simp add: t' deleteMsg_def filter_storeMsg)
qed

text \<open>A property kept by every single call is kept by dispatchMessage.\<close>

lemma dispatchMessage_invariant:
  assumes "I t"
    and "\<And>t m t' d. I t \<Longrightarrow> dispatchStep fin t m = (t', d) \<Longrightarrow> I t'"
  shows "I (dispatchMessage fin t message)"
  using assms(1)
proof (induction "length (deleteMsg (ID message) (messages t))" arbitrary: t message
    rule: less_induct)
  case less
  obtain t' d where s: "dispatchStep fin t message = (t', d)"
    by (cases "dispatchStep fin t message")
  with less.prems assms(2) have I': "I t'"
    by blast
  show ?case
  proof (cases d)
    case None
    with s I' show ?thesis
      by (simp add: dispatchMessage_step)
  next
    case (Some resp)
    with s have "I (dispatchMessage fin t' resp)"
      using less.hyps [OF dispatchStep_deferred I'] by simp
    with s Some show ?thesis
      by (simp add: dispatchMessage_step)
  qed
qed

lemma dispatchStep_keeps:
  "dispatchStep fin t m = (t', d) \<Longrightarrow>
   seqWithData t' = seqWithData t \<and> port t' = port t \<and> messageExpire t' = messageExpire t"
  by (auto simp: dispatchStep_def Let_def send_def split: if_splits option.splits)

lemma dispatchMessage_keeps:
  "seqWithData (dispatchMessage fin t m) = seqWithData t \<and>
   port (dispatchMessage fin t m) = port t \<and>
   messageExpire (dispatchMessage fin t m) = messageExpire t"
  by (rule dispatchMessage_invariant
      [where I = "\<lambda>t'. seqWithData t' = seqWithData t \<and> port t' = port t \<and>
         messageExpire t' = messageExpire t"])
    (auto dest: dispatchStep_keeps)

lemma foldl_AddPacket: "foldl AddPacket m ps = m\<lparr>packets := packets m @ ps\<rparr>"
  by (induction ps arbitrary: m) (simp_all add: AddPacket_def)

lemma mergeLoop_keeps:
  "mergeLoop seq a ks t m = (t', m') \<Longrightarrow>
   seqWithData t' = seqWithData t \<and> respAliases t' = respAliases t \<and>
   respWithoutReq t' = respWithoutReq t \<and> messagesChan t' = messagesChan t \<and>
   port t' = port t \<and> messageExpire t' = messageExpire t \<and>
   ID m' = ID m \<and> TCPMessage.Seq m' = TCPMessage.Seq m \<and> TCPMessage.Ack m' = TCPMessage.Ack m \<and>
   Start m' = Start m \<and> ResponseAck m' = ResponseAck m \<and> IsIncoming m' = IsIncoming m \<and>
   RequestAck m' = RequestAck m \<and> RequestStart m' = RequestStart m"
proof (induction ks arbitrary: t m)
  case Nil
  then show ?case by simp
next
  case (Cons k ks)
  show ?case
  proof (cases "lookupMsg (messages t) k")
    case None
    with Cons show ?thesis by simp
  next
    case (Some x)
    show ?thesis
    proof (cases "TCPMessage.Seq x = seq")
      case False
      with Some Cons show ?thesis by simp
    next
      case True
      with Some Cons.prems Cons.IH [of _ "foldl AddPacket m (packets x)"] show ?thesis
        by (simp add: Let_def foldl_AddPacket)
    qed
  qed
qed

lemma slice_nat:
  "lo \<le> hi \<Longrightarrow> hi \<le> length d \<Longrightarrow> slice d (int lo) (int hi) = Inr (take (hi - lo) (drop lo d))"
  by (simp add: slice_def)

lemma expect100_match:
  assumes "expectsContinue (Data p)"
  shows "\<exists>t2 m'. mergeLoop (TCPPacket.Seq p + of_nat (length (Data p))) (TCPPacket.Ack p)
            (map ID (messages t))
            (t\<lparr>seqWithData := (seqWithData t)
               (TCPPacket.Seq p + of_nat (length (Data p)) \<mapsto> TCPPacket.Ack p)\<rparr>) m = (t2, m') \<and>
         expect100 t m p = Inr (t2, m',
           p\<lparr>Data := take (length (Data p) - 24) (Data p) @ drop (length (Data p) - 2) (Data p)\<rparr>)"
proof -
  let ?n = "length (Data p)"
  from assms have n: "24 \<le> ?n" and post: "take 4 (Data p) = ''POST''"
    and ex: "take 20 (drop (?n - 24) (Data p)) = ''Expect: 100-continue''"
    by (simp_all add: expectsContinue_def)
  have s1: "slice (Data p) 0 4 = Inr bPOST"
    using slice_nat [of 0 4 "Data p"] n post by (simp add: bPOST_def)
  have "slice (Data p) (int (?n - 24)) (int (?n - 4)) = Inr (take ((?n - 4) - (?n - 24)) (drop (?n - 24) (Data p)))"
    by (rule slice_nat) simp_all
  moreover have "(?n - 4) - (?n - 24) = 20"
    using n by simp
  ultimately have s2: "slice (Data p) (int ?n - 24) (int ?n - 4) = Inr bExpect100ContinueCheck"
    using n ex by (simp add: bExpect100ContinueCheck_def of_nat_diff)
  have n4: "4 < ?n"
    using n by simp
  have c1: "nat (int ?n - 24) = ?n - 24" and c2: "nat (int ?n - 2) = ?n - 2"
    by simp_all
  show ?thesis
    by (cases "mergeLoop (TCPPacket.Seq p + of_nat ?n) (TCPPacket.Ack p) (map ID (messages t))
            (t\<lparr>seqWithData := (seqWithData t) (TCPPacket.Seq p + of_nat ?n \<mapsto> TCPPacket.Ack p)\<rparr>) m")
      (simp add: expect100_def Let_def s1 s2 n4 c1 c2)
qed

lemma expect100_no_match:
  assumes "\<not> expectsContinue (Data p)"
  shows "(\<exists>e. expect100 t m p = Inl (e, t, p)) \<or> expect100 t m p = Inr (t, m, p)"
proof (cases "int (length (Data p)) > 4 \<and> slice (Data p) 0 4 = Inr bPOST")
  case False
  then show ?thesis
    by (auto simp: expect100_def Let_def)
next
  case True
  then have post: "take 4 (Data p) = ''POST''"
    by (auto simp: slice_def bPOST_def split: if_splits)
  show ?thesis
  proof (cases "slice (Data p) (int (length (Data p)) - 24) (int (length (Data p)) - 4)")
    case (Inl e)
    with True show ?thesis
      by (simp add: expect100_def Let_def)
  next
    case (Inr tail)
    then have n: "24 \<le> length (Data p)"
      and tail: "tail = take 20 (drop (length (Data p) - 24) (Data p))"
      by (auto simp: slice_def nat_diff_distrib split: if_splits)
    with assms post have "tail \<noteq> bExpect100ContinueCheck"
      by (auto simp: expectsContinue_def bExpect100ContinueCheck_def)
    with True Inr show ?thesis
      by (simp add: expect100_def Let_def)
  qed
qed

lemma trackResponse_keeps:
  "trackResponse t inc m p = (t', m') \<Longrightarrow>
   seqWithData t' = seqWithData t \<and> ackAliases t' = ackAliases t \<and>
   respWithoutReq t' = respWithoutReq t \<and> messagesChan t' = messagesChan t \<and>
   port t' = port t \<and> messageExpire t' = messageExpire t"
  by (auto simp: trackResponse_def Let_def split: if_splits)

lemma assemble_Inr:
  assumes "rewriteAck t p0 = (t1, p1)"
    and "findMessage t1 (DestPort p0 = port t) p1 = (t2, m2)"
    and "expect100 t2 m2 p1 = Inr (t3, m3, p3)"
    and "trackResponse t3 (DestPort p0 = port t) m3 p3 = (t4, m4)"
  shows "assemble t p0 =
    Inr (t4\<lparr>messages := storeMsg (AddPacket m4 p3) (messages t4)\<rparr>, AddPacket m4 p3, p3)"
  using assms by (simp add: assemble_def Let_def)

lemma assemble_Inl:
  assumes "rewriteAck t p0 = (t1, p1)"
    and "findMessage t1 (DestPort p0 = port t) p1 = (t2, m2)"
    and "expect100 t2 m2 p1 = Inl e"
  shows "assemble t p0 = Inl e"
  using assms by (simp add: assemble_def)

lemma expect100_keeps:
  assumes "expect100 t m p = Inr (t3, m3, p3)"
  shows "respAliases t3 = respAliases t \<and> respWithoutReq t3 = respWithoutReq t \<and>
         messagesChan t3 = messagesChan t \<and> port t3 = port t \<and>
         messageExpire t3 = messageExpire t \<and>
         ID m3 = ID m \<and> TCPMessage.Seq m3 = TCPMessage.Seq m \<and>
         TCPMessage.Ack m3 = TCPMessage.Ack m \<and> Start m3 = Start m \<and>
         ResponseAck m3 = ResponseAck m \<and> IsIncoming m3 = IsIncoming m \<and>
         RequestAck m3 = RequestAck m \<and> RequestStart m3 = RequestStart m \<and>
         TCPPacket.Seq p3 = TCPPacket.Seq p \<and> TCPPacket.Ack p3 = TCPPacket.Ack p \<and>
         DestPort p3 = DestPort p \<and> Addr p3 = Addr p \<and> captured_at p3 = captured_at p"
proof (cases "expectsContinue (Data p)")
  case True
  from expect100_match [OF True, of t m] assms obtain t0 where
    "mergeLoop (TCPPacket.Seq p + of_nat (length (Data p))) (TCPPacket.Ack p)
       (map ID (messages t)) t0 m = (t3, m3)"
    and "respAliases t0 = respAliases t" "respWithoutReq t0 = respWithoutReq t"
      "messagesChan t0 = messagesChan t" "port t0 = port t" "messageExpire t0 = messageExpire t"
    and "p3 = p\<lparr>Data := take (length (Data p) - 24) (Data p) @ drop (length (Data p) - 2) (Data p)\<rparr>"
    by fastforce
  with mergeLoop_keeps [OF this(1)] show ?thesis
    by simp
next
  case False
  from expect100_no_match [OF False, of t m] assms show ?thesis
    by auto
qed

lemma trackResponse_incoming:
  "trackResponse t True m p =
     (t\<lparr>respAliases := (if packets m = [] then respAliases t
                          else (respAliases t)(ResponseAck m := None))
            (TCPPacket.Seq p + of_nat (BodySize m) + of_nat (length (Data p))
               \<mapsto> \<lparr>start = Start m, ack = TCPMessage.Ack m\<rparr>),
        messages := storeMsg
          (m\<lparr>ResponseAck := TCPPacket.Seq p + of_nat (BodySize m) + of_nat (length (Data p))\<rparr>)
          (messages t)\<rparr>,
      m\<lparr>ResponseAck := TCPPacket.Seq p + of_nat (BodySize m) + of_nat (length (Data p))\<rparr>)"
  by (simp add: trackResponse_def Let_def)

lemma assemble_cases:
  assumes "assemble t p0 = Inr (t', m', p')"
  obtains t1 p1 t2 m2 t3 m3 t4 m4 where
    "rewriteAck t p0 = (t1, p1)"
    "findMessage t1 (DestPort p0 = port t) p1 = (t2, m2)"
    "expect100 t2 m2 p1 = Inr (t3, m3, p')"
    "trackResponse t3 (DestPort p0 = port t) m3 p' = (t4, m4)"
    "m' = AddPacket m4 p'"
    "t' = t4\<lparr>messages := storeMsg m' (messages t4)\<rparr>"
proof -
  obtain t1 p1 where r: "rewriteAck t p0 = (t1, p1)"
    by (cases "rewriteAck t p0")
  obtain t2 m2 where f: "findMessage t1 (DestPort p0 = port t) p1 = (t2, m2)"
    by (cases "findMessage t1 (DestPort p0 = port t) p1")
  show thesis
  proof (cases "expect100 t2 m2 p1")
    case (Inl e)
    from assemble_Inl [OF r f Inl] assms show thesis
      by simp
  next
    case (Inr x)
    obtain t3 m3 p3 where x: "x = (t3, m3, p3)"
      by (cases x)
    obtain t4 m4 where tr: "trackResponse t3 (DestPort p0 = port t) m3 p3 = (t4, m4)"
      by (cases "trackResponse t3 (DestPort p0 = port t) m3 p3")
    from assemble_Inr [OF r f Inr [unfolded x] tr] assms
    have "p' = p3" "m' = AddPacket m4 p3" "t' = t4\<lparr>messages := storeMsg m' (messages t4)\<rparr>"
      by simp_all
    with r f Inr x tr show thesis
      by (intro that) simp_all
  qed
qed

lemma lookupMsg_append:
  "lookupMsg (ms @ [x]) k =
     (case lookupMsg ms k of Some m \<Rightarrow> Some m | None \<Rightarrow> if ID x = k then Some x else None)"
  by (induction ms) (auto simp: lookupMsg_def)

lemma findMessage_sync:
  "findMessage t inc p = (t2, m2) \<Longrightarrow> lookupMsg (messages t2) (ID m2) = Some m2"
proof (cases "lookupMsg (messages t) (messageID p)")
  case None
  assume "findMessage t inc p = (t2, m2)"
  with None show ?thesis
    by (auto simp: findMessage_def NewTCPMessage_def Let_def lookupMsg_append
        split: option.splits if_splits)
next
  case (Some m)
  assume "findMessage t inc p = (t2, m2)"
  with Some have "t2 = t" "m2 = m"
    by (simp_all add: findMessage_def Let_def)
  with Some lookupMsg_Some_ID [OF Some] show ?thesis
    by simp
qed

lemma findMessage_lookup:
  "findMessage t inc p = (t2, m2) \<Longrightarrow> lookupMsg (messages t) k = Some m \<Longrightarrow>
   lookupMsg (messages t2) k = Some m"
  by (auto simp: findMessage_def Let_def lookupMsg_append split: option.splits if_splits)

lemma mergeLoop_after:
  "mergeLoop seq a ks t message = (t', message') \<Longrightarrow>
   (ackAliases t x = Some a \<longrightarrow> ackAliases t' x = Some a) \<and>
   (lookupMsg (messages t) k = None \<longrightarrow> lookupMsg (messages t') k = None) \<and>
   (\<exists>post. packets message' = packets message @ post)"
proof (induction ks arbitrary: t message)
  case Nil
  then show ?case by simp
next
  case (Cons k0 ks)
  show ?case
  proof (cases "lookupMsg (messages t) k0")
    case None
    with Cons show ?thesis by simp
  next
    case (Some m0)
    show ?thesis
    proof (cases "TCPMessage.Seq m0 = seq")
      case False
      with Some Cons show ?thesis by simp
    next
      case True
      let ?message = "foldl AddPacket message (packets m0)"
      let ?t2 = "t\<lparr>ackAliases := (ackAliases t)(TCPMessage.Ack m0 \<mapsto> a),
                   messages := deleteMsg k0 (storeMsg ?message (messages t))\<rparr>"
      from Cons.prems Some True have "mergeLoop seq a ks ?t2 ?message = (t', message')"
        by (simp add: Let_def)
      from Cons.IH [OF this] show ?thesis
        by (auto simp: foldl_AddPacket lookupMsg_deleteMsg lookupMsg_storeMsg)
    qed
  qed
qed

lemma mergeLoop_entry:
  assumes "lookupMsg (messages t) k = Some m" and "TCPMessage.Seq m = seq" and "k \<in> set ks"
    and "lookupMsg (messages t) (ID message) \<in> {None, Some message}"
    and "mergeLoop seq a ks t message = (t', message')"
  shows "ackAliases t' (TCPMessage.Ack m) = Some a \<and> lookupMsg (messages t') k = None \<and>
         (\<exists>pre post. packets message' = packets message @ pre @ packets m @ post)"
  using assms
proof (induction ks arbitrary: t message m)
  case Nil
  then show ?case by simp
next
  case (Cons k0 ks)
  note entry = Cons.prems(1) and seq = Cons.prems(2) and sync = Cons.prems(4)
    and run = Cons.prems(5)
  show ?case
  proof (cases "lookupMsg (messages t) k0")
    case None
    with entry have "k \<noteq> k0" by auto
    with Cons.prems(3) have "k \<in> set ks" by simp
    from None run have "mergeLoop seq a ks t message = (t', message')" by simp
    from Cons.IH [OF entry seq \<open>k \<in> set ks\<close> sync this] show ?thesis .
  next
    case (Some m0)
    show ?thesis
    proof (cases "TCPMessage.Seq m0 = seq")
      case False
      with entry seq Some have "k \<noteq> k0" by auto
      with Cons.prems(3) have "k \<in> set ks" by simp
      from False Some run have "mergeLoop seq a ks t message = (t', message')" by simp
      from Cons.IH [OF entry seq \<open>k \<in> set ks\<close> sync this] show ?thesis .
    next
      case True
      let ?message = "foldl AddPacket message (packets m0)"
      let ?t2 = "t\<lparr>ackAliases := (ackAliases t)(TCPMessage.Ack m0 \<mapsto> a),
                   messages := deleteMsg k0 (storeMsg ?message (messages t))\<rparr>"
      from run Some True have run2: "mergeLoop seq a ks ?t2 ?message = (t', message')"
        by (simp add: Let_def)
      have pk: "packets ?message = packets message @ packets m0"
        by (simp add: foldl_AddPacket)
      have idm: "ID ?message = ID message"
        by (simp add: foldl_AddPacket)
      show ?thesis
      proof (cases "k = k0")
        case True
        with entry Some have m0: "m0 = m" by simp
        have "ackAliases ?t2 (TCPMessage.Ack m) = Some a"
          and "lookupMsg (messages ?t2) k = None"
          using True m0 by (simp_all add: lookupMsg_deleteMsg)
        with mergeLoop_after [OF run2, of "TCPMessage.Ack m" k] pk m0
        obtain post where "ackAliases t' (TCPMessage.Ack m) = Some a"
          and "lookupMsg (messages t') k = None"
          and "packets message' = packets message @ [] @ packets m @ post"
          by auto
        then show ?thesis
          by blast
      next
        case False
        with Cons.prems(3) have kin: "k \<in> set ks" by simp
        have sync2: "lookupMsg (messages ?t2) (ID ?message) \<in> {None, Some ?message}"
          by (simp add: lookupMsg_deleteMsg lookupMsg_storeMsg idm split: option.splits)
        show ?thesis
        proof (cases "k = ID message")
          case kid: True
          with entry sync have mm: "m = message" by auto
          have e2: "lookupMsg (messages ?t2) k = Some ?message"
            using False entry kid by (simp add: lookupMsg_deleteMsg lookupMsg_storeMsg idm)
          have s2: "TCPMessage.Seq ?message = seq"
            using seq mm by (simp add: foldl_AddPacket)
          from Cons.IH [OF e2 s2 kin sync2 run2] pk mm
          obtain pre post where "ackAliases t' (TCPMessage.Ack m) = Some a"
            and "lookupMsg (messages t') k = None"
            and "packets message' =
                   packets message @ (packets m0 @ pre) @ packets m @ (packets m0 @ post)"
            by (auto simp: foldl_AddPacket)
          then show ?thesis
            by blast
        next
          case kid: False
          have e2: "lookupMsg (messages ?t2) k = Some m"
            using False entry kid by (simp add: lookupMsg_deleteMsg lookupMsg_storeMsg idm)
          from Cons.IH [OF e2 seq kin sync2 run2] pk
          obtain pre post where "ackAliases t' (TCPMessage.Ack m) = Some a"
            and "lookupMsg (messages t') k = None"
            and "packets message' = packets message @ (packets m0 @ pre) @ packets m @ post"
            by auto
          then show ?thesis
            by blast
        qed
      qed
    qed
  qed
qed

lemma trackResponse_lookup:
  "trackResponse t inc m p = (t4, m4) \<Longrightarrow>
   (lookupMsg (messages t) k = None \<longrightarrow> lookupMsg (messages t4) k = None) \<and>
   packets m4 = packets m"
  by (auto simp: trackResponse_def Let_def lookupMsg_storeMsg split: if_splits)

lemma mergeLoop_sync:
  assumes "lookupMsg (messages t) (ID message) = Some message"
    and "TCPMessage.Seq message \<noteq> seq"
    and "mergeLoop seq a ks t message = (t', message')"
  shows "lookupMsg (messages t') (ID message') = Some message'"
  using assms
proof (induction ks arbitrary: t message)
  case Nil
  then show ?case by simp
next
  case (Cons k0 ks)
  show ?case
  proof (cases "lookupMsg (messages t) k0")
    case None
    with Cons show ?thesis by simp
  next
    case (Some m0)
    show ?thesis
    proof (cases "TCPMessage.Seq m0 = seq")
      case False
      with Some Cons show ?thesis by simp
    next
      case True
      let ?message = "foldl AddPacket message (packets m0)"
      let ?t2 = "t\<lparr>ackAliases := (ackAliases t)(TCPMessage.Ack m0 \<mapsto> a),
                   messages := deleteMsg k0 (storeMsg ?message (messages t))\<rparr>"
      from Cons.prems(3) Some True have run: "mergeLoop seq a ks ?t2 ?message = (t', message')"
        by (simp add: Let_def)
      from Some Cons.prems(1) Cons.prems(2) True have ne: "ID message \<noteq> k0"
        by auto
      have idm: "ID ?message = ID message" and sq: "TCPMessage.Seq ?message \<noteq> seq"
        using Cons.prems(2) by (simp_all add: foldl_AddPacket)
      have "lookupMsg (messages ?t2) (ID ?message) = Some ?message"
        using ne Cons.prems(1) by (simp add: idm lookupMsg_deleteMsg lookupMsg_storeMsg)
      from Cons.IH [OF this sq run] show ?thesis .
    qed
  qed
qed

lemma trackResponse_sync:
  assumes "trackResponse t inc m p = (t4, m4)"
  shows "ID m4 = ID m \<and>
         (lookupMsg (messages t) (ID m) = None \<longrightarrow> lookupMsg (messages t4) (ID m4) = None) \<and>
         (lookupMsg (messages t) (ID m) = Some m \<longrightarrow> lookupMsg (messages t4) (ID m4) = Some m4)"
proof (cases inc)
  case False
  with assms show ?thesis
    by (auto simp: trackResponse_def)
next
  case True
  with assms show ?thesis
    by (auto simp: trackResponse_incoming lookupMsg_storeMsg)
qed


text \<open>
  The waiting listener is what the code makes of the two packets, the response first,
  when no message is finished early.
\<close>

lemma scenario_response_first:
  "assemble (fst (snd (processTCPPacket never listener80 responsePacket))) requestPacket
     = Inr (waiting, requestMessage, requestPacket)"
  by (simp add: ingest_defs example_defs)

section \<open>Lemmas on the messages a dispatch leaves\<close>






























lemma backfilled_ID: "backfilled x y \<Longrightarrow> ID y = ID x"
  by (simp add: backfilled_def)






section \<open>Dispatch of an outgoing message\<close>

text \<open>
  C1. Every outgoing message passed to \<open>dispatchMessage\<close> either has
  \<open>RequestAck \<noteq> 0\<close> and is sent on the output channel, or has \<open>RequestAck = 0\<close> and is
  dropped: the channel is left as it was. Either way the entries of \<open>respAliases\<close> and
  \<open>respWithoutReq\<close> under its \<open>Ack\<close> are gone, and the message has left \<open>messages\<close>.
  This holds in every state of the listener, so for every sequence of packets.
\<close>

theorem dispatch_outgoing:
  "\<not> IsIncoming message \<Longrightarrow>
   messagesChan (dispatchMessage fin t message) =
     (if RequestAck message = 0 then messagesChan t else messagesChan t @ [message]) \<and>
   respAliases (dispatchMessage fin t message) (TCPMessage.Ack message) = None \<and>
   respWithoutReq (dispatchMessage fin t message) (TCPMessage.Ack message) = None \<and>
   lookupMsg (messages (dispatchMessage fin t message)) (ID message) = None"
  by (simp add: dispatchMessage.simps [of fin t message] send_def lookupMsg_def deleteMsg_def
      find_None_iff)

theorem dispatch_outgoing_witness:
  "\<not> IsIncoming orphan \<and>
   messagesChan (dispatchMessage (\<lambda>m. True) listener80 orphan) = [] \<and>
   respWithoutReq (dispatchMessage (\<lambda>m. True) listener80 orphan) 9999 = None"
proof -
  have h: "\<not> IsIncoming orphan"
    by (simp add: orphan_def NewTCPMessage_def)
  show ?thesis
    using h dispatch_outgoing [OF h, of "\<lambda>m. True" listener80]
    by (simp add: orphan_def NewTCPMessage_def listener80_def NewListener_def)
qed

section \<open>Dispatch of an incoming message whose response came first\<close>

text \<open>
  C3. When an incoming message is dispatched and \<open>respWithoutReq\<close> under its
  \<open>ResponseAck\<close> names a message that is still in \<open>messages\<close> (after the dispatched one
  has been deleted) and has \<open>RequestAck = 0\<close>, that response gets \<open>RequestAck\<close> and
  \<open>RequestStart\<close> from the \<open>Ack\<close> and \<open>Start\<close> of the dispatched message. If the
  response is then finished it is dispatched from the listener in which the current dispatch
  is complete: the current message is already on the channel. So a finished outgoing
  response follows its request on the channel (unless the \<open>Ack\<close> it was given is 0).
\<close>

theorem dispatch_backfill:
  assumes "IsIncoming message"
    and "respWithoutReq t (ResponseAck message) = Some respID"
    and "lookupMsg (deleteMsg (ID message) (messages t)) respID = Some resp"
    and "RequestAck resp = 0"
  shows
   "(let resp' = resp\<lparr>RequestAck := TCPMessage.Ack message, RequestStart := Start message\<rparr>;
         t' = t\<lparr>ackAliases := (ackAliases t)(TCPMessage.Ack message := None),
                messages := storeMsg resp' (deleteMsg (ID message) (messages t)),
                messagesChan := messagesChan t @ [message]\<rparr>
     in lookupMsg (messages t') respID = Some resp' \<and>
        dispatchMessage fin t message = (if fin resp' then dispatchMessage fin t' resp' else t') \<and>
        (fin resp' \<and> \<not> IsIncoming resp \<longrightarrow>
           messagesChan (dispatchMessage fin t message) =
             messagesChan t @ [message] @ (if TCPMessage.Ack message = 0 then [] else [resp'])))"
proof -
  from assms(3) have id: "ID resp = respID"
    by (simp add: lookupMsg_Some_ID)
  show ?thesis
    using assms id
    by (simp add: dispatchMessage.simps [of fin t message] send_def Let_def lookupMsg_storeMsg
        dispatch_outgoing_eq)
qed

theorem dispatch_backfill_witness:
  "IsIncoming requestMessage \<and>
   respWithoutReq waiting (ResponseAck requestMessage) = Some ''1.2.3.45000118'' \<and>
   lookupMsg (deleteMsg (ID requestMessage) (messages waiting)) ''1.2.3.45000118''
     = Some responseMessage \<and>
   RequestAck responseMessage = 0 \<and>
   messagesChan (dispatchMessage single waiting requestMessage)
     = [requestMessage, responseMessage\<lparr>RequestAck := 200, RequestStart := 20\<rparr>]"
proof -
  have h1: "IsIncoming requestMessage"
    by (simp add: example_defs)
  have h2: "respWithoutReq waiting (ResponseAck requestMessage) = Some ''1.2.3.45000118''"
    by (simp add: example_defs)
  have h3: "lookupMsg (deleteMsg (ID requestMessage) (messages waiting)) ''1.2.3.45000118''
     = Some responseMessage"
    by (simp add: example_defs lookupMsg_def deleteMsg_def)
  have h4: "RequestAck responseMessage = 0"
    by (simp add: example_defs)
  show ?thesis
    using h1 h2 h3 h4 dispatch_backfill [OF h1 h2 h3 h4, of single]
    by (simp add: example_defs Let_def lookupMsg_def deleteMsg_def storeMsg_def
        dispatch_outgoing_eq)
qed

section \<open>The response acknowledgement of an incoming message\<close>

text \<open>
  C2. For every incoming packet that \<open>processTCPPacket\<close> puts into a message (no panic),
  at the point where the packet has been appended: the packets of the message are some list
  \<open>ps\<close>, which the message held before, followed by the packet; \<open>ResponseAck\<close> is
  \<open>Seq + B + len\<close> in 32-bit arithmetic, where \<open>B\<close> is the sum of the payload lengths
  of \<open>ps\<close> and \<open>len\<close> the payload length of the packet as it is appended (after the cut of
  an \<open>Expect: 100-continue\<close> header); \<open>respAliases\<close> is the old map, without the entry
  under the previous \<open>ResponseAck\<close> of the message when \<open>ps\<close> is not empty, and with the
  start and the acknowledgement of the message under the new \<open>ResponseAck\<close>. The entry of
  the message in \<open>messages\<close>, when there is one, is this message.
\<close>

theorem response_ack_bookkeeping:
  assumes "DestPort packet = port t"
    and "assemble t packet = Inr (t', message', packet')"
  shows "\<exists>ps. packets message' = ps @ [packet'] \<and>
     ResponseAck message' =
       TCPPacket.Seq packet + of_nat (sum_list (map (\<lambda>p. length (Data p)) ps))
         + of_nat (length (Data packet')) \<and>
     respAliases t' =
       (if ps = [] then respAliases t
        else (respAliases t)
          (ResponseAck (snd (findMessage (fst (rewriteAck t packet)) True
                               (snd (rewriteAck t packet)))) := None))
       (ResponseAck message' \<mapsto> \<lparr>start = Start message', ack = TCPMessage.Ack message'\<rparr>) \<and>
     lookupMsg (messages t') (ID message') \<in> {None, Some message'}"
proof -
  from assms(2) obtain t1 p1 t2 m2 t3 m3 t4 m4 where
    r: "rewriteAck t packet = (t1, p1)"
    and f: "findMessage t1 (DestPort packet = port t) p1 = (t2, m2)"
    and e: "expect100 t2 m2 p1 = Inr (t3, m3, packet')"
    and tr: "trackResponse t3 (DestPort packet = port t) m3 packet' = (t4, m4)"
    and m': "message' = AddPacket m4 packet'"
    and t': "t' = t4\<lparr>messages := storeMsg message' (messages t4)\<rparr>"
    by (rule assemble_cases)
  note rk = rewriteAck_keeps [OF r] and fk = findMessage_keeps [OF f]
    and ek = expect100_keeps [OF e]
  from tr assms(1) have tr': "trackResponse t3 True m3 packet' = (t4, m4)"
    by simp
  have old: "ResponseAck (snd (findMessage (fst (rewriteAck t packet)) True
       (snd (rewriteAck t packet)))) = ResponseAck m3"
    using r f assms(1) ek by simp
  have lk: "lookupMsg (messages t') (ID message') \<in> {None, Some message'}"
    by (simp add: t' lookupMsg_storeMsg split: option.splits)
  show ?thesis
    using tr' [unfolded trackResponse_incoming] rk fk ek lk
    by (intro exI [of _ "packets m3"])
      (auto simp: m' t' AddPacket_def BodySize_def old)
qed

theorem response_ack_bookkeeping_witness:
  "DestPort secondPacket = port waiting \<and>
   assemble waiting secondPacket = Inr (afterSecond, secondMessage, secondPacket) \<and>
   packets secondMessage = [requestPacket, secondPacket] \<and>
   ResponseAck secondMessage = 118 + 18 + 4 \<and>
   respAliases afterSecond 118 = None \<and>
   respAliases afterSecond 140 = Some \<lparr>start = 20, ack = 200\<rparr>"
proof -
  have h1: "DestPort secondPacket = port waiting"
    by (simp add: example_defs)
  have h2: "assemble waiting secondPacket = Inr (afterSecond, secondMessage, secondPacket)"
    by (simp add: ingest_defs example_defs)
  have c: "packets secondMessage = [requestPacket, secondPacket]"
    "ResponseAck secondMessage = 118 + 18 + 4"
    "respAliases afterSecond 118 = None"
    "respAliases afterSecond 140 = Some \<lparr>start = 20, ack = 200\<rparr>"
    by (simp_all add: secondMessage_def afterSecond_def)
  show ?thesis
    using response_ack_bookkeeping [OF h1 h2] h1 h2 c by blast
qed

section \<open>The header Expect: 100-continue\<close>

text \<open>
  C4. For every packet \<open>processTCPPacket\<close> is given, with \<open>packet'\<close> the packet as the
  function leaves it: when the payload begins with \<open>POST\<close> and its bytes from \<open>len - 24\<close>
  up to \<open>len - 4\<close> are \<open>Expect: 100-continue\<close>, no panic is raised,
  \<open>seqWithData\<close> holds the acknowledgement of the packet under \<open>Seq + len\<close> (in 32
  bits, with the length before the cut), and the payload is the old one without the 22 bytes
  from \<open>len - 24\<close> up to \<open>len - 2\<close>. The acknowledgement is the one the packet has
  at that point, after lines 237 to 245 have rewritten it through \<open>seqWithData\<close> and
  \<open>ackAliases\<close>. For every other packet the payload is left as it was.
\<close>

theorem expect_header_stripped:
  assumes "processTCPPacket fin t packet = (r, t', packet')"
  shows "if expectsContinue (Data packet)
         then r = None \<and>
              TCPPacket.Ack packet' = TCPPacket.Ack (snd (rewriteAck t packet)) \<and>
              seqWithData t' (TCPPacket.Seq packet + of_nat (length (Data packet)))
                = Some (TCPPacket.Ack packet') \<and>
              Data packet' = take (length (Data packet) - 24) (Data packet)
                               @ drop (length (Data packet) - 2) (Data packet)
         else Data packet' = Data packet"
proof -
  let ?inc = "DestPort packet = port t"
  obtain t1 p1 where r: "rewriteAck t packet = (t1, p1)"
    by (cases "rewriteAck t packet")
  obtain t2 m2 where f: "findMessage t1 ?inc p1 = (t2, m2)"
    by (cases "findMessage t1 ?inc p1")
  note rk = rewriteAck_keeps [OF r]
  show ?thesis
  proof (cases "expectsContinue (Data packet)")
    case True
    let ?seq = "TCPPacket.Seq p1 + of_nat (length (Data p1))"
    let ?p3 = "p1\<lparr>Data := take (length (Data p1) - 24) (Data p1)
                 @ drop (length (Data p1) - 2) (Data p1)\<rparr>"
    from True rk have "expectsContinue (Data p1)"
      by simp
    from expect100_match [OF this, of t2 m2] obtain t3 m3
      where ml: "mergeLoop ?seq (TCPPacket.Ack p1) (map ID (messages t2))
                   (t2\<lparr>seqWithData := (seqWithData t2)(?seq \<mapsto> TCPPacket.Ack p1)\<rparr>) m2 = (t3, m3)"
        and e: "expect100 t2 m2 p1 = Inr (t3, m3, ?p3)"
      by blast
    obtain t4 m4 where tr: "trackResponse t3 ?inc m3 ?p3 = (t4, m4)"
      by (cases "trackResponse t3 ?inc m3 ?p3")
    let ?t5 = "t4\<lparr>messages := storeMsg (AddPacket m4 ?p3) (messages t4)\<rparr>"
    have a: "assemble t packet = Inr (?t5, AddPacket m4 ?p3, ?p3)"
      by (rule assemble_Inr [OF r f e tr])
    have s3: "seqWithData t3 ?seq = Some (TCPPacket.Ack p1)"
      using mergeLoop_keeps [OF ml] by simp
    then have s5: "seqWithData ?t5 ?seq = Some (TCPPacket.Ack p1)"
      using trackResponse_keeps [OF tr] by simp
    from assms a have res: "r = None" "packet' = ?p3"
      "t' = (if fin (AddPacket m4 ?p3) then dispatchMessage fin ?t5 (AddPacket m4 ?p3) else ?t5)"
      by (auto simp: processTCPPacket_def)
    have "seqWithData t' = seqWithData ?t5"
      unfolding res by (simp add: dispatchMessage_keeps)
    with s5 res rk True show ?thesis
      by (simp add: r)
  next
    case False
    with rk have "\<not> expectsContinue (Data p1)"
      by simp
    from expect100_no_match [OF this, of t2 m2] show ?thesis
    proof (elim disjE exE)
      fix e assume "expect100 t2 m2 p1 = Inl (e, t2, p1)"
      then have "assemble t packet = Inl (e, t2, p1)"
        by (rule assemble_Inl [OF r f])
      with assms have "packet' = p1"
        by (auto simp: processTCPPacket_def)
      with rk False show ?thesis by simp
    next
      assume e: "expect100 t2 m2 p1 = Inr (t2, m2, p1)"
      obtain t4 m4 where tr: "trackResponse t2 ?inc m2 p1 = (t4, m4)"
        by (cases "trackResponse t2 ?inc m2 p1")
      from assemble_Inr [OF r f e tr] assms have "packet' = p1"
        by (auto simp: processTCPPacket_def)
      with rk False show ?thesis by simp
    qed
  qed
qed

theorem expect_header_stripped_witness:
  "expectsContinue (Data headerPacket) \<and>
   Data (snd (snd (processTCPPacket never listener80 headerPacket)))
     = ''POST / HTTP/1.1'' @ CRLF @ CRLF \<and>
   seqWithData (fst (snd (processTCPPacket never listener80 headerPacket))) 1041 = Some 500 \<and>
   \<not> expectsContinue (Data requestPacket) \<and>
   Data (snd (snd (processTCPPacket never listener80 requestPacket))) = Data requestPacket"
proof -
  have e1: "processTCPPacket never listener80 headerPacket =
     (fst (processTCPPacket never listener80 headerPacket),
      fst (snd (processTCPPacket never listener80 headerPacket)),
      snd (snd (processTCPPacket never listener80 headerPacket)))"
    by simp
  have e2: "processTCPPacket never listener80 requestPacket =
     (fst (processTCPPacket never listener80 requestPacket),
      fst (snd (processTCPPacket never listener80 requestPacket)),
      snd (snd (processTCPPacket never listener80 requestPacket)))"
    by simp
  have h1: "expectsContinue (Data headerPacket)"
    by (simp add: expectsContinue_def headerPacket_def CRLF_def)
  have h2: "\<not> expectsContinue (Data requestPacket)"
    by (simp add: expectsContinue_def requestPacket_def CRLF_def)
  have r: "TCPPacket.Ack (snd (rewriteAck listener80 headerPacket)) = 500"
    by (simp add: rewriteAck_def headerPacket_def example_defs)
  show ?thesis
    using h1 h2 expect_header_stripped [OF e1] expect_header_stripped [OF e2]
    by (simp add: r) (simp add: headerPacket_def CRLF_def)
qed

section \<open>The continuation that came before its header\<close>

text \<open>
  C5. When a packet with the \<open>Expect: 100-continue\<close> header is given to
  \<open>processTCPPacket\<close> and \<open>messages\<close> holds, under some key, a message \<open>m\<close> whose
  \<open>Seq\<close> is \<open>Seq + len\<close> of the packet, then no panic is raised and, at the point where
  the packet has been appended: \<open>ackAliases\<close> holds the acknowledgement of the packet under
  the \<open>Ack\<close> of \<open>m\<close>; the key of \<open>m\<close> is no longer in \<open>messages\<close>; and the packets
  of the current message are the ones it had, then the packets of \<open>m\<close> in their order (with
  packets of other such messages before and after), then the packet itself. The current
  message with these packets is the entry under its own key in \<open>messages\<close>; only when
  the current message is itself such an \<open>m\<close> has the loop deleted its key, as it does for
  every \<open>m\<close>.
\<close>

theorem continuation_merged:
  assumes "expectsContinue (Data packet)"
    and "lookupMsg (messages t) k = Some m"
    and "TCPMessage.Seq m = TCPPacket.Seq packet + of_nat (length (Data packet))"
  shows "\<exists>t' message' packet'.
           assemble t packet = Inr (t', message', packet') \<and>
           ackAliases t' (TCPMessage.Ack m) = Some (TCPPacket.Ack packet') \<and>
           lookupMsg (messages t') k = None \<and>
           (\<exists>pre post. packets message' =
              packets (currentMessage t packet) @ pre @ packets m @ post @ [packet']) \<and>
           lookupMsg (messages t') (ID message') =
             (if TCPMessage.Seq (currentMessage t packet)
                   = TCPPacket.Seq packet + of_nat (length (Data packet))
              then None else Some message')"
proof -
  let ?inc = "DestPort packet = port t"
  obtain t1 p1 where r: "rewriteAck t packet = (t1, p1)"
    by (cases "rewriteAck t packet")
  obtain t2 m2 where f: "findMessage t1 ?inc p1 = (t2, m2)"
    by (cases "findMessage t1 ?inc p1")
  note rk = rewriteAck_keeps [OF r]
  have cur: "currentMessage t packet = m2"
    by (simp add: currentMessage_def r f)
  let ?seq = "TCPPacket.Seq p1 + of_nat (length (Data p1))"
  let ?p3 = "p1\<lparr>Data := take (length (Data p1) - 24) (Data p1)
               @ drop (length (Data p1) - 2) (Data p1)\<rparr>"
  let ?t2 = "t2\<lparr>seqWithData := (seqWithData t2)(?seq \<mapsto> TCPPacket.Ack p1)\<rparr>"
  from assms(1) rk have "expectsContinue (Data p1)"
    by simp
  from expect100_match [OF this, of t2 m2] obtain t3 m3
    where ml: "mergeLoop ?seq (TCPPacket.Ack p1) (map ID (messages t2)) ?t2 m2 = (t3, m3)"
      and e: "expect100 t2 m2 p1 = Inr (t3, m3, ?p3)"
    by blast
  obtain t4 m4 where tr: "trackResponse t3 ?inc m3 ?p3 = (t4, m4)"
    by (cases "trackResponse t3 ?inc m3 ?p3")
  let ?m5 = "AddPacket m4 ?p3"
  let ?t5 = "t4\<lparr>messages := storeMsg ?m5 (messages t4)\<rparr>"
  have a: "assemble t packet = Inr (?t5, ?m5, ?p3)"
    by (rule assemble_Inr [OF r f e tr])
  have entry: "lookupMsg (messages ?t2) k = Some m"
    using findMessage_lookup [OF f, of k m] assms(2) rk by simp
  have seq: "TCPMessage.Seq m = ?seq"
    using assms(3) rk by simp
  have kin: "k \<in> set (map ID (messages t2))"
    using entry lookupMsg_Some_ID [of "messages t2" k m] by force
  have own: "lookupMsg (messages ?t2) (ID m2) = Some m2"
    using findMessage_sync [OF f] by simp
  then have sync: "lookupMsg (messages ?t2) (ID m2) \<in> {None, Some m2}"
    by simp
  from mergeLoop_entry [OF entry seq kin sync ml] obtain pre post
    where a3: "ackAliases t3 (TCPMessage.Ack m) = Some (TCPPacket.Ack p1)"
      and l3: "lookupMsg (messages t3) k = None"
      and p3: "packets m3 = packets m2 @ pre @ packets m @ post"
    by blast
  from trackResponse_keeps [OF tr] a3 have a5: "ackAliases ?t5 (TCPMessage.Ack m) = Some (TCPPacket.Ack ?p3)"
    by simp
  from trackResponse_lookup [OF tr, of k] l3 have l5: "lookupMsg (messages ?t5) k = None"
    by (simp add: lookupMsg_storeMsg)
  from trackResponse_lookup [OF tr, of k] p3
  have p5: "packets ?m5 = packets m2 @ pre @ packets m @ post @ [?p3]"
    by (simp add: AddPacket_def)
  have id3: "ID m3 = ID m2"
    using mergeLoop_keeps [OF ml] by simp
  note ts = trackResponse_sync [OF tr]
  have id5: "ID ?m5 = ID m3"
    using ts by (simp add: AddPacket_def)
  have own5: "lookupMsg (messages ?t5) (ID ?m5) =
      (if TCPMessage.Seq m2 = ?seq then None else Some ?m5)"
  proof (cases "TCPMessage.Seq m2 = ?seq")
    case True
    have "ID m2 \<in> set (map ID (messages t2))"
      using own lookupMsg_Some_ID [of "messages t2" "ID m2" m2] by force
    from mergeLoop_entry [OF own True this sync ml] have "lookupMsg (messages t3) (ID m3) = None"
      by (simp add: id3)
    with ts have "lookupMsg (messages t4) (ID m3) = None"
      by metis
    with True show ?thesis
      by (simp add: id5 lookupMsg_storeMsg)
  next
    case False
    from mergeLoop_sync [OF own False ml] ts have "lookupMsg (messages t4) (ID m3) = Some m4"
      by metis
    with False show ?thesis
      by (simp add: id5 lookupMsg_storeMsg)
  qed
  have sq: "TCPPacket.Seq packet + of_nat (length (Data packet)) = ?seq"
    using rk by simp
  from a a5 l5 p5 own5 show ?thesis
    unfolding cur sq by blast
qed

theorem continuation_merged_witness:
  "expectsContinue (Data headerPacket) \<and>
   lookupMsg (messages bodyFirst) ''1.2.3.480501'' = Some bodyMessage \<and>
   TCPMessage.Seq bodyMessage
     = TCPPacket.Seq headerPacket + of_nat (length (Data headerPacket)) \<and>
   (\<exists>t' message' packet'.
      assemble bodyFirst headerPacket = Inr (t', message', packet') \<and>
      ackAliases t' 501 = Some 500 \<and>
      lookupMsg (messages t') ''1.2.3.480501'' = None \<and>
      packets message' = [bodyPacket, packet'] \<and>
      lookupMsg (messages t') ''1.2.3.480500'' = Some message' \<and>
      messages t' = [message'])"
proof -
  have h1: "expectsContinue (Data headerPacket)"
    by (simp add: expectsContinue_def headerPacket_def CRLF_def)
  have h2: "lookupMsg (messages bodyFirst) ''1.2.3.480501'' = Some bodyMessage"
    by (simp add: bodyFirst_def bodyMessage_def lookupMsg_def)
  have h3: "TCPMessage.Seq bodyMessage
     = TCPPacket.Seq headerPacket + of_nat (length (Data headerPacket))"
    by (simp add: bodyMessage_def headerPacket_def CRLF_def)
  have c: "\<exists>t' message' packet'.
      assemble bodyFirst headerPacket = Inr (t', message', packet') \<and>
      ackAliases t' 501 = Some 500 \<and>
      lookupMsg (messages t') ''1.2.3.480501'' = None \<and>
      packets message' = [bodyPacket, packet'] \<and>
      lookupMsg (messages t') ''1.2.3.480500'' = Some message' \<and>
      messages t' = [message']"
    by (simp add: ingest_defs example_defs)
  show ?thesis
    using continuation_merged [OF h1 h2 h3] h1 h2 h3 c by blast
qed

section \<open>The expiry of messages\<close>




section \<open>A panic in processTCPPacket\<close>

text \<open>
  C7, as the code has it. A packet that starts with \<open>POST\<close> and has 5 to 23 bytes makes
  \<open>packet.Data[len-24:len-4]\<close> panic. The panic is recovered and the packet is dropped:
  it is in no message and nothing is sent. The listener is not put back to what it was
  before the packet: it keeps what lines 237 to 269 did, that is the rewrite of the
  acknowledgement (\<open>ackAliases\<close>, \<open>seqWithData\<close>) and the message created for the
  packet, without packets (\<open>messages\<close>, \<open>respWithoutReq\<close>). \<open>respAliases\<close> and the
  output channel are as before.
\<close>

theorem short_POST_panics:
  assumes "4 < length (Data packet)" and "length (Data packet) < 24"
    and "take 4 (Data packet) = ''POST''"
  shows
   "(let (t1, packet1) = rewriteAck t packet;
         (t2, message) = findMessage t1 (DestPort packet = port t) packet1
     in processTCPPacket fin t packet = (Some SliceBoundsOutOfRange, t2, packet1) \<and>
        Data packet1 = Data packet \<and>
        respAliases t2 = respAliases t \<and>
        messagesChan t2 = messagesChan t \<and>
        (messages t2 = messages t \<or>
         messages t2 = messages t @ [message] \<and> packets message = []))"
proof -
  obtain t1 packet1 where r: "rewriteAck t packet = (t1, packet1)"
    by (cases "rewriteAck t packet")
  obtain t2 message where f: "findMessage t1 (DestPort packet = port t) packet1 = (t2, message)"
    by (cases "findMessage t1 (DestPort packet = port t) packet1")
  note rk = rewriteAck_keeps [OF r] and fk = findMessage_keeps [OF f]
  have "expect100 t2 message packet1 = Inl (SliceBoundsOutOfRange, t2, packet1)"
    using assms rk by (intro expect100_short) simp_all
  then have "processTCPPacket fin t packet = (Some SliceBoundsOutOfRange, t2, packet1)"
    by (simp add: processTCPPacket_def assemble_def r f)
  with rk fk show ?thesis
    by (simp add: r f)
qed

theorem short_POST_panics_witness:
  "4 < length (Data shortPost) \<and> length (Data shortPost) < 24 \<and>
   take 4 (Data shortPost) = ''POST'' \<and>
   processTCPPacket single listener80 shortPost =
     (Some SliceBoundsOutOfRange,
      listener80\<lparr>messages := [NewTCPMessage ''1.2.3.480400'' 300 400 True 30]\<rparr>,
      shortPost)"
proof -
  have h1: "4 < length (Data shortPost)" and h2: "length (Data shortPost) < 24"
    and h3: "take 4 (Data shortPost) = ''POST''"
    by (simp_all add: example_defs)
  have r: "rewriteAck listener80 shortPost = (listener80, shortPost)"
    by (simp add: rewriteAck_def example_defs)
  have f: "findMessage listener80 (DestPort shortPost = port listener80) shortPost =
     (listener80\<lparr>messages := [NewTCPMessage ''1.2.3.480400'' 300 400 True 30]\<rparr>,
      NewTCPMessage ''1.2.3.480400'' 300 400 True 30)"
    by (simp add: findMessage_def messageID_def Itoa.simps lookupMsg_def example_defs Let_def)
  show ?thesis
    using h1 h2 h3 short_POST_panics [OF h1 h2 h3, of listener80 single]
    by (simp add: r f)
qed

text \<open>
  C7, as the claim states it, fails: after the recovered panic \<open>messages\<close> is not what
  it was before the packet.
\<close>

theorem short_POST_changes_messages:
  "fst (processTCPPacket never listener80 shortPost) = Some SliceBoundsOutOfRange \<and>
   messages (fst (snd (processTCPPacket never listener80 shortPost))) \<noteq> messages listener80"
  by (simp add: ingest_defs example_defs)

section \<open>Close\<close>

text \<open>
  C8, as the code has it. The first \<open>Close\<close> of a listener signals shutdown: it closes
  \<open>t.quit\<close>. A second \<open>Close\<close> panics, because Go's \<open>close\<close> panics on a channel that
  is closed already. \<open>Close\<close> is not idempotent.
\<close>

theorem Close_second_panics:
  "\<not> quit t \<Longrightarrow>
   (\<exists>t1. Close t = Inr t1 \<and> quit t1 \<and> Close t1 = Inl CloseOfClosedChannel)"
  by (simp add: Close_def split: option.splits)

theorem Close_second_panics_witness:
  "\<not> quit listener80 \<and>
   (\<exists>t1. Close listener80 = Inr t1 \<and> quit t1 \<and> Close t1 = Inl CloseOfClosedChannel)"
proof -
  have h: "\<not> quit listener80"
    by (simp add: listener80_def NewListener_def)
  show ?thesis
    using h Close_second_panics [OF h] by simp
qed

text \<open>
  C8, as the claim states it, fails: after the first \<open>Close\<close> of a new listener, the
  second one panics.
\<close>

theorem Close_not_idempotent:
  "Close (projr (Close listener80)) = Inl CloseOfClosedChannel"
  by (simp add: Close_def listener80_def NewListener_def)

section \<open>The port of NewListener\<close>






section \<open>isValidPacket\<close>

text \<open>
  C10, as the code has it. \<open>isValidPacket\<close> panics on every buffer whose capacity is
  under 4 bytes. On a buffer of capacity 4 or more and length 12 or less (a length under 4
  too, where the port fields are read from the bytes past the length) it panics when the
  source or the destination port field is the listen port, at \<open>buf[12]\<close>, and returns
  false otherwise. \<open>readRAWSocket\<close> calls it on every frame with \<open>n > 0\<close>, sliced from
  its buffer of 64 KiB, and a panic there is not recovered.
\<close>

theorem isValidPacket_partial:
  "(length (array buf) < 4 \<longrightarrow> isValidPacket t buf = Inl SliceBoundsOutOfRange) \<and>
   (4 \<le> length (array buf) \<and> len buf \<le> 12 \<longrightarrow>
      isValidPacket t buf =
        (if ucast (array buf ! 3) OR push_bit 8 (ucast (array buf ! 2)) = port t \<or>
            ucast (array buf ! 1) OR push_bit 8 (ucast (array buf ! 0)) = port t
         then Inl IndexOutOfRange else Inr False)) \<and>
   (0 < n \<and> n \<le> length frame \<longrightarrow>
      readFrame t frame n None =
        (case isValidPacket t \<lparr>array = frame, len = n\<rparr> of
           Inl e \<Rightarrow> Crash e
         | Inr True \<Rightarrow> Forward (take n frame)
         | Inr False \<Rightarrow> Continue))"
  by (simp add: isValidPacket_def readFrame_def reslice_def Uint16_def index_def)

theorem isValidPacket_partial_witness:
  "isValidPacket listener80 \<lparr>array = [0, 80], len = 2\<rparr> = Inl SliceBoundsOutOfRange \<and>
   isValidPacket listener80 \<lparr>array = [19, 136, 0, 80, 0, 0, 0, 1], len = 8\<rparr>
     = Inl IndexOutOfRange \<and>
   readFrame listener80 [19, 136, 0, 80, 0, 0, 0, 1] 8 None = Crash IndexOutOfRange"
  using isValidPacket_partial [of "\<lparr>array = [0, 80], len = 2\<rparr>" listener80 0 "[]"]
    isValidPacket_partial [of "\<lparr>array = [19, 136, 0, 80, 0, 0, 0, 1], len = 8\<rparr>" listener80
      8 "[19, 136, 0, 80, 0, 0, 0, 1]"]
  by (simp add: listener80_def NewListener_def Atoi_def)

text \<open>
  C10, as the claim states it, fails: a frame of one byte read into the zeroed buffer of
  64 KiB is shorter than 4 bytes, and \<open>isValidPacket\<close> returns false on it.
\<close>

theorem isValidPacket_short_no_panic:
  "isValidPacket listener80 \<lparr>array = replicate 65536 0, len = 1\<rparr> = Inr False"
  by (simp add: isValidPacket_def reslice_def Uint16_def index_def listener80_def
      NewListener_def Atoi_def)

end
